theory Spec2Isabelle
  imports Main "HOL-Library.AList" "HOL-Library.Sublist" "HOL-Library.Product_Lexorder"
begin

section \<open>JavaScript values\<close>

text \<open>
  The storage manager of \<^verbatim>\<open>src/storage-manager.js\<close> stores JSON-serialisable values.
  A number is modelled as an integer (URL ids are \<^verbatim>\<open>Date.now()\<close> values, sizes are string
  lengths); a string is a list of code units, restricted to U+0000 .. U+00FF so that the
  list length is JavaScript's \<^verbatim>\<open>length\<close>. An object is the list of its own enumerable
  properties in property order; \<^verbatim>\<open>undefined\<close> is \<open>None\<close> of an option where the
  program can meet it.
\<close>

datatype json =
    JNull
  | JBool bool
  | JNum int
  | JStr string
  | JArr "json list"
  | JObj "(string \<times> json) list"

type_synonym props = "(string \<times> json) list"

datatype exn =
    TypeError
  | DataError
  | ConstraintError
  | TransactionError
  | NotInitialized

subsection \<open>Number and string conversion\<close>

definition digit_char :: "nat \<Rightarrow> char" where
  "digit_char d = ''0123456789abcdef'' ! d"

fun dec_nat :: "nat \<Rightarrow> string" where
  "dec_nat n = (if n < 10 then [digit_char n] else dec_nat (n div 10) @ [digit_char (n mod 10)])"

definition dec_int :: "int \<Rightarrow> string" where
  "dec_int i = (if i < 0 then CHR ''-'' # dec_nat (nat (- i)) else dec_nat (nat i))"

fun join_with :: "string \<Rightarrow> string list \<Rightarrow> string" where
  "join_with sep [] = []"
| "join_with sep [x] = x"
| "join_with sep (x # y # ys) = x @ sep @ join_with sep (y # ys)"

text \<open>\<^verbatim>\<open>QuoteJSONString\<close>: the escapes \<^verbatim>\<open>JSON.stringify\<close> writes inside a string.\<close>

definition escape_char :: "char \<Rightarrow> string" where
  "escape_char c =
     (if c = CHR 0x22 then [CHR 0x5C, CHR 0x22]
      else if c = CHR 0x5C then [CHR 0x5C, CHR 0x5C]
      else if c = CHR 0x08 then [CHR 0x5C, CHR ''b'']
      else if c = CHR 0x0C then [CHR 0x5C, CHR ''f'']
      else if c = CHR 0x0A then [CHR 0x5C, CHR ''n'']
      else if c = CHR 0x0D then [CHR 0x5C, CHR ''r'']
      else if c = CHR 0x09 then [CHR 0x5C, CHR ''t'']
      else if (of_char c :: nat) < 32
        then [CHR 0x5C, CHR ''u'', CHR ''0'', CHR ''0'',
              digit_char (of_char c div 16), digit_char (of_char c mod 16)]
      else [c])"

definition quote :: "string \<Rightarrow> string" where
  "quote s = CHR 0x22 # concat (map escape_char s) @ [CHR 0x22]"

text \<open>\<^verbatim>\<open>JSON.stringify(data)\<close> with no indent argument.\<close>

fun stringify :: "json \<Rightarrow> string" where
  "stringify JNull = ''null''"
| "stringify (JBool b) = (if b then ''true'' else ''false'')"
| "stringify (JNum n) = dec_int n"
| "stringify (JStr s) = quote s"
| "stringify (JArr xs) = ''['' @ join_with '','' (map stringify xs) @ '']''"
| "stringify (JObj kvs) =
     ''{'' @ join_with '','' (map (\<lambda>(k, v). quote k @ '':'' @ stringify v) kvs) @ ''}''"

text \<open>String conversion of a template literal, \<^verbatim>\<open>`url_${id}`\<close>.\<close>

fun to_str :: "json \<Rightarrow> string" where
  "to_str JNull = ''null''"
| "to_str (JBool b) = (if b then ''true'' else ''false'')"
| "to_str (JNum n) = dec_int n"
| "to_str (JStr s) = s"
| "to_str (JArr xs) = join_with '','' (map (\<lambda>x. if x = JNull then [] else to_str x) xs)"
| "to_str (JObj kvs) = ''[object Object]''"

definition template :: "json option \<Rightarrow> string" where
  "template v = (case v of None \<Rightarrow> ''undefined'' | Some x \<Rightarrow> to_str x)"

fun truthy :: "json \<Rightarrow> bool" where
  "truthy JNull = False"
| "truthy (JBool b) = b"
| "truthy (JNum n) = (n \<noteq> 0)"
| "truthy (JStr s) = (s \<noteq> [])"
| "truthy (JArr xs) = True"
| "truthy (JObj kvs) = True"

text \<open>
  Reading a property (\<^verbatim>\<open>data.id\<close>, \<^verbatim>\<open>data._compressed\<close>, \<^verbatim>\<open>data.shortCode\<close>): a
  TypeError on \<^verbatim>\<open>null\<close>, \<^verbatim>\<open>undefined\<close> on a value that has no such own property. The
  names the program reads are never properties of an array, a string, a number or a
  boolean.
\<close>

definition get_prop :: "json \<Rightarrow> string \<Rightarrow> exn + json option" where
  "get_prop v k =
     (case v of JNull \<Rightarrow> Inl TypeError | JObj kvs \<Rightarrow> Inr (map_of kvs k) | _ \<Rightarrow> Inr None)"

text \<open>The own enumerable properties an object spread \<^verbatim>\<open>{...data}\<close> copies.\<close>

definition spread :: "json \<Rightarrow> props" where
  "spread v =
     (case v of
        JObj kvs \<Rightarrow> kvs
      | JArr xs \<Rightarrow> zip (map (\<lambda>i. dec_nat i) [0 ..< length xs]) xs
      | JStr s \<Rightarrow> zip (map (\<lambda>i. dec_nat i) [0 ..< length s]) (map (\<lambda>c. JStr [c]) s)
      | _ \<Rightarrow> [])"

section \<open>Data compression\<close>

text \<open>The character class \<^verbatim>\<open>\s\<close> within the modelled code units.\<close>

definition is_space :: "char \<Rightarrow> bool" where
  "is_space c = (c \<in> set [CHR 0x09, CHR 0x0A, CHR 0x0B, CHR 0x0C, CHR 0x0D, CHR 0x20, CHR 0xA0])"

text \<open>\<^verbatim>\<open>.replace(/\s+/g, ' ')\<close>\<close>

function collapse_ws :: "string \<Rightarrow> string" where
  "collapse_ws [] = []"
| "collapse_ws (c # cs) =
     (if is_space c then CHR 0x20 # collapse_ws (dropWhile is_space cs)
      else c # collapse_ws cs)"
  by pat_completeness auto
termination
  by (relation "measure length") (auto simp: length_dropWhile_le less_Suc_eq_le)

text \<open>
  \<^verbatim>\<open>.replace(/pat/g, rep)\<close> for a pattern that is a literal, non-empty string: every
  occurrence, left to right, without overlap.
\<close>

fun replace_all :: "string \<Rightarrow> string \<Rightarrow> string \<Rightarrow> string" where
  "replace_all pat rep [] = []"
| "replace_all pat rep (c # cs) =
     (if prefix pat (c # cs) then rep @ replace_all pat rep (drop (length pat - 1) cs)
      else c # replace_all pat rep cs)"

definition trim :: "string \<Rightarrow> string" where
  "trim s = rev (dropWhile is_space (rev (dropWhile is_space s)))"

text \<open>
  \<^verbatim>\<open>jsonString.replace(/\s+/g, ' ').replace(/": "/g, '":"').replace(/", "/g, '","').trim()\<close>
\<close>

definition strip_patterns :: "string \<Rightarrow> string" where
  "strip_patterns jsonString =
     trim
       (replace_all [CHR 0x22, CHR '','', CHR 0x20, CHR 0x22] [CHR 0x22, CHR '','', CHR 0x22]
         (replace_all [CHR 0x22, CHR '':'', CHR 0x20, CHR 0x22] [CHR 0x22, CHR '':'', CHR 0x22]
           (collapse_ws jsonString)))"

definition bookkeeping :: "string list" where
  "bookkeeping = [''_compressed'', ''_originalSize'', ''_compressedSize'']"

text \<open>
  \<^verbatim>\<open>compressData(data)\<close>. The \<^verbatim>\<open>catch\<close> branch returns \<^verbatim>\<open>data\<close> when
  \<^verbatim>\<open>JSON.stringify\<close> throws, which it does on no value of \<^typ>\<open>json\<close>.
\<close>

definition compressData :: "json \<Rightarrow> json" where
  "compressData data =
     (let jsonString = stringify data;
          compressed = strip_patterns jsonString
      in JObj
           (AList.update ''_compressedSize'' (JNum (int (length compressed)))
             (AList.update ''_originalSize'' (JNum (int (length jsonString)))
               (AList.update ''_compressed'' (JBool True) (spread data)))))"

text \<open>
  \<^verbatim>\<open>decompressData(data)\<close>: when \<^verbatim>\<open>data && data._compressed\<close>, the rest of the object
  after the three bookkeeping properties are taken out.
\<close>

definition decompressData :: "json \<Rightarrow> json" where
  "decompressData data =
     (case data of
        JObj kvs \<Rightarrow>
          (case map_of kvs ''_compressed'' of
             Some m \<Rightarrow>
               if truthy m
               then JObj (AList.delete ''_compressedSize''
                           (AList.delete ''_originalSize'' (AList.delete ''_compressed'' kvs)))
               else data
           | None \<Rightarrow> data)
      | _ \<Rightarrow> data)"

text \<open>
  A record that carries none of the bookkeeping properties. A URL record (section 3 of
  the specification) is one: an object whose attributes are the listed ones.
\<close>

definition plain_record :: "json \<Rightarrow> bool" where
  "plain_record r =
     (case r of JObj kvs \<Rightarrow> list_all (\<lambda>k. map_of kvs k = None) bookkeeping | _ \<Rightarrow> False)"

section \<open>The three storage tiers\<close>

text \<open>
  The structured store (IndexedDB). \<^verbatim>\<open>initDB\<close> creates the partitions with a key path
  each: \<^verbatim>\<open>urls\<close> by \<^verbatim>\<open>id\<close> with a unique index on \<^verbatim>\<open>shortCode\<close>, \<^verbatim>\<open>security\<close>
  by \<^verbatim>\<open>id\<close> with an index on \<^verbatim>\<open>timestamp\<close>, \<^verbatim>\<open>settings\<close> by \<^verbatim>\<open>key\<close>, \<^verbatim>\<open>cache\<close>
  by \<^verbatim>\<open>key\<close> with an index on \<^verbatim>\<open>expiry\<close>. A partition is the list of its records; the
  key of a record is read from the record through the key path. The order of the list
  is not the store's key order, and nothing below depends on it.
\<close>

record cache_entry =
  ce_key :: string
  ce_data :: json
  ce_timestamp :: int
  ce_expiry :: int

record security_log =
  log_id :: int
  log_timestamp :: int
  log_data :: props

record setting =
  s_key :: string
  s_value :: json
  s_timestamp :: int

record database =
  urls :: "json list"
  security :: "security_log list"
  settings :: "setting list"
  cache_store :: "cache_entry list"

text \<open>
  The fallback store (localStorage) holds strings. A stored string is kept as the value
  \<^verbatim>\<open>JSON.parse\<close> reads from it (\<open>Text\<close>: what \<^verbatim>\<open>JSON.stringify\<close> wrote), or as
  \<open>Garbage\<close> when it is empty or \<^verbatim>\<open>JSON.parse\<close> throws on it.
\<close>

datatype stored = Text json | Garbage string

record storage =
  db :: "database option"
  cache :: "(string \<times> json) list"
  localStorage :: "(string \<times> stored) list"
  compressionEnabled :: bool

text \<open>
  What the program reads from its environment during one call: the clock
  (\<^verbatim>\<open>Date.now()\<close>), whether a request \<^verbatim>\<open>dbOperation(storeName, operation, ...)\<close> is
  rejected by the store (quota, aborted transaction), and whether
  \<^verbatim>\<open>localStorage.setItem\<close> throws on a key (quota).
\<close>

record env =
  now :: int
  db_fault :: "string \<Rightarrow> string \<Rightarrow> bool"
  ls_fault :: "string \<Rightarrow> bool"

subsection \<open>Keys of the structured store\<close>

fun valid_key :: "json \<Rightarrow> bool" where
  "valid_key (JNum n) = True"
| "valid_key (JStr s) = True"
| "valid_key (JArr xs) = list_all valid_key xs"
| "valid_key v = False"

definition key_of :: "json \<Rightarrow> json option" where
  "key_of r = (case r of JObj kvs \<Rightarrow> map_of kvs ''id'' | _ \<Rightarrow> None)"

definition shortCode_of :: "json \<Rightarrow> json option" where
  "shortCode_of r = (case r of JObj kvs \<Rightarrow> map_of kvs ''shortCode'' | _ \<Rightarrow> None)"

text \<open>
  \<^verbatim>\<open>store.put(data)\<close> on \<^verbatim>\<open>urls\<close>: a DataError when the key path gives no valid key, a
  ConstraintError when another record holds the same \<^verbatim>\<open>shortCode\<close>, else insert or
  replace by key.
\<close>

definition urls_put :: "json \<Rightarrow> json list \<Rightarrow> exn + json list" where
  "urls_put r us =
     (case key_of r of
        None \<Rightarrow> Inl DataError
      | Some k \<Rightarrow>
          if \<not> valid_key k then Inl DataError
          else if (case shortCode_of r of
                     None \<Rightarrow> False
                   | Some c \<Rightarrow> valid_key c \<and>
                       list_ex (\<lambda>x. key_of x \<noteq> Some k \<and> shortCode_of x = Some c) us)
            then Inl ConstraintError
          else Inr (filter (\<lambda>x. key_of x \<noteq> Some k) us @ [r]))"

definition urls_get :: "json \<Rightarrow> json list \<Rightarrow> exn + json option" where
  "urls_get k us =
     (if \<not> valid_key k then Inl DataError else Inr (find (\<lambda>x. key_of x = Some k) us))"

definition urls_delete :: "json \<Rightarrow> json list \<Rightarrow> exn + json list" where
  "urls_delete k us =
     (if \<not> valid_key k then Inl DataError else Inr (filter (\<lambda>x. key_of x \<noteq> Some k) us))"

subsection \<open>\<^verbatim>\<open>dbOperation(storeName, operation, data)\<close>\<close>

text \<open>
  One definition for each pair of partition and operation the program uses. Each starts
  with the guard \<^verbatim>\<open>if (!this.db) throw\<close>, and each is a promise that may reject.
\<close>

definition dbOperation_urls_put :: "env \<Rightarrow> storage \<Rightarrow> json \<Rightarrow> exn + storage" where
  "dbOperation_urls_put e st data =
     (case db st of
        None \<Rightarrow> Inl NotInitialized
      | Some d \<Rightarrow>
          if db_fault e ''urls'' ''put'' then Inl TransactionError
          else (case urls_put data (urls d) of
                  Inl x \<Rightarrow> Inl x
                | Inr us \<Rightarrow> Inr (st\<lparr>db := Some (d\<lparr>urls := us\<rparr>)\<rparr>)))"

definition dbOperation_urls_get :: "env \<Rightarrow> storage \<Rightarrow> json \<Rightarrow> exn + json option" where
  "dbOperation_urls_get e st k =
     (case db st of
        None \<Rightarrow> Inl NotInitialized
      | Some d \<Rightarrow>
          if db_fault e ''urls'' ''get'' then Inl TransactionError else urls_get k (urls d))"

definition dbOperation_urls_getAll :: "env \<Rightarrow> storage \<Rightarrow> exn + json list" where
  "dbOperation_urls_getAll e st =
     (case db st of
        None \<Rightarrow> Inl NotInitialized
      | Some d \<Rightarrow>
          if db_fault e ''urls'' ''getAll'' then Inl TransactionError else Inr (urls d))"

definition dbOperation_urls_delete :: "env \<Rightarrow> storage \<Rightarrow> json \<Rightarrow> exn + storage" where
  "dbOperation_urls_delete e st k =
     (case db st of
        None \<Rightarrow> Inl NotInitialized
      | Some d \<Rightarrow>
          if db_fault e ''urls'' ''delete'' then Inl TransactionError
          else (case urls_delete k (urls d) of
                  Inl x \<Rightarrow> Inl x
                | Inr us \<Rightarrow> Inr (st\<lparr>db := Some (d\<lparr>urls := us\<rparr>)\<rparr>)))"


definition dbOperation_cache_put :: "env \<Rightarrow> storage \<Rightarrow> cache_entry \<Rightarrow> exn + storage" where
  "dbOperation_cache_put e st data =
     (case db st of
        None \<Rightarrow> Inl NotInitialized
      | Some d \<Rightarrow>
          if db_fault e ''cache'' ''put'' then Inl TransactionError
          else Inr (st\<lparr>db := Some
                 (d\<lparr>cache_store :=
                      filter (\<lambda>x. ce_key x \<noteq> ce_key data) (cache_store d) @ [data]\<rparr>)\<rparr>))"

definition dbOperation_cache_get :: "env \<Rightarrow> storage \<Rightarrow> string \<Rightarrow> exn + cache_entry option" where
  "dbOperation_cache_get e st k =
     (case db st of
        None \<Rightarrow> Inl NotInitialized
      | Some d \<Rightarrow>
          if db_fault e ''cache'' ''get'' then Inl TransactionError
          else Inr (find (\<lambda>x. ce_key x = k) (cache_store d)))"

definition dbOperation_cache_delete :: "env \<Rightarrow> storage \<Rightarrow> string \<Rightarrow> exn + storage" where
  "dbOperation_cache_delete e st k =
     (case db st of
        None \<Rightarrow> Inl NotInitialized
      | Some d \<Rightarrow>
          if db_fault e ''cache'' ''delete'' then Inl TransactionError
          else Inr (st\<lparr>db := Some
                 (d\<lparr>cache_store := filter (\<lambda>x. ce_key x \<noteq> k) (cache_store d)\<rparr>)\<rparr>))"

subsection \<open>localStorage fallback functions\<close>

text \<open>
  \<^verbatim>\<open>backupToLocalStorage(prefix, key, data)\<close> catches the exception of
  \<^verbatim>\<open>localStorage.setItem\<close> and returns \<^verbatim>\<open>false\<close>.
\<close>

definition backupToLocalStorage ::
    "env \<Rightarrow> storage \<Rightarrow> string \<Rightarrow> json option \<Rightarrow> json \<Rightarrow> bool \<times> storage" where
  "backupToLocalStorage e st pre key data =
     (let storageKey = pre @ ''_'' @ template key
      in if ls_fault e storageKey then (False, st)
         else (True, st\<lparr>localStorage := AList.update storageKey (Text data) (localStorage st)\<rparr>))"

text \<open>\<^verbatim>\<open>getFromLocalStorage(key)\<close>: \<^verbatim>\<open>null\<close> for a missing, empty or unreadable item.\<close>

definition getFromLocalStorage :: "storage \<Rightarrow> string \<Rightarrow> json" where
  "getFromLocalStorage st key =
     (case map_of (localStorage st) key of Some (Text v) \<Rightarrow> v | _ \<Rightarrow> JNull)"

definition getAllFromLocalStorage :: "storage \<Rightarrow> string \<Rightarrow> json list" where
  "getAllFromLocalStorage st pre =
     filter truthy
       (map (getFromLocalStorage st) (filter (prefix pre) (map fst (localStorage st))))"

definition removeFromLocalStorage :: "storage \<Rightarrow> string \<Rightarrow> bool \<times> storage" where
  "removeFromLocalStorage st key =
     (True, st\<lparr>localStorage := AList.delete key (localStorage st)\<rparr>)"

section \<open>URL management\<close>

text \<open>
  A public operation returns its result with the storage it leaves. The body of its
  \<^verbatim>\<open>try\<close> is written out step by step; an exception of a step ends in the \<^verbatim>\<open>catch\<close>
  branch, which returns the failure value with the storage as far as it was changed.
\<close>

definition saveURL :: "env \<Rightarrow> storage \<Rightarrow> json \<Rightarrow> bool \<times> storage" where
  "saveURL e st urlData =
     (let compressedData = (if compressionEnabled st then compressData urlData else urlData)
      in case (if db st \<noteq> None then dbOperation_urls_put e st compressedData else Inr st) of
           Inl x \<Rightarrow> (False, st)
         | Inr st1 \<Rightarrow>
             (case get_prop urlData ''id'' of
                Inl x \<Rightarrow> (False, st1)
              | Inr i \<Rightarrow>
                  let st2 = st1\<lparr>cache :=
                              AList.update (''url_'' @ template i) compressedData (cache st1)\<rparr>;
                      st3 = snd (backupToLocalStorage e st2 ''urls'' i compressedData)
                  in (True, st3)))"

text \<open>\<^verbatim>\<open>getURL(id)\<close>; the result \<open>JNull\<close> is \<^verbatim>\<open>null\<close>.\<close>

definition getURL :: "env \<Rightarrow> storage \<Rightarrow> json \<Rightarrow> json \<times> storage" where
  "getURL e st i =
     (let cacheKey = ''url_'' @ to_str i
      in case map_of (cache st) cacheKey of
           Some data \<Rightarrow> (if compressionEnabled st then decompressData data else data, st)
         | None \<Rightarrow>
             (case (if db st \<noteq> None then dbOperation_urls_get e st i else Inr None) of
                Inl x \<Rightarrow> (JNull, st)
              | Inr found \<Rightarrow>
                  (case (case found of Some data \<Rightarrow> if truthy data then Some data else None
                                     | None \<Rightarrow> None) of
                     Some data \<Rightarrow>
                       (if compressionEnabled st then decompressData data else data,
                        st\<lparr>cache := AList.update cacheKey data (cache st)\<rparr>)
                   | None \<Rightarrow>
                       (let localData = getFromLocalStorage st (''urls_'' @ to_str i)
                        in if truthy localData
                           then (localData,
                                 st\<lparr>cache := AList.update cacheKey localData (cache st)\<rparr>)
                           else (JNull, st)))))"

text \<open>
  \<^verbatim>\<open>urls.forEach(url => this.cache.set(`url_${url.id}`, url))\<close>, with the exception that
  ends it.
\<close>

fun cache_each :: "json list \<Rightarrow> (string \<times> json) list \<Rightarrow> exn option \<times> (string \<times> json) list" where
  "cache_each [] c = (None, c)"
| "cache_each (url # us) c =
     (case get_prop url ''id'' of
        Inl x \<Rightarrow> (Some x, c)
      | Inr i \<Rightarrow> cache_each us (AList.update (''url_'' @ template i) url c))"

definition getAllURLs :: "env \<Rightarrow> storage \<Rightarrow> json list \<times> storage" where
  "getAllURLs e st =
     (case (if db st \<noteq> None then dbOperation_urls_getAll e st else Inr []) of
        Inl x \<Rightarrow> ([], st)
      | Inr us \<Rightarrow>
          if us \<noteq> [] then
            (case cache_each us (cache st) of
               (Some x, c) \<Rightarrow> ([], st\<lparr>cache := c\<rparr>)
             | (None, c) \<Rightarrow>
                 (if compressionEnabled st then map decompressData us else us, st\<lparr>cache := c\<rparr>))
          else (getAllFromLocalStorage st ''urls_'', st))"

definition deleteURL :: "env \<Rightarrow> storage \<Rightarrow> json \<Rightarrow> bool \<times> storage" where
  "deleteURL e st i =
     (case (if db st \<noteq> None then dbOperation_urls_delete e st i else Inr st) of
        Inl x \<Rightarrow> (False, st)
      | Inr st1 \<Rightarrow>
          (let st2 = st1\<lparr>cache := AList.delete (''url_'' @ to_str i) (cache st1)\<rparr>;
               st3 = snd (removeFromLocalStorage st2 (''urls_'' @ to_str i))
           in (True, st3)))"

section \<open>Settings\<close>


section \<open>Cache management\<close>

definition setCache :: "env \<Rightarrow> storage \<Rightarrow> string \<Rightarrow> json \<Rightarrow> int \<Rightarrow> bool \<times> storage" where
  "setCache e st key data ttl =
     (let cacheData = \<lparr>ce_key = key, ce_data = data, ce_timestamp = now e,
                       ce_expiry = now e + ttl\<rparr>
      in case (if db st \<noteq> None then dbOperation_cache_put e st cacheData else Inr st) of
           Inl x \<Rightarrow> (False, st)
         | Inr st1 \<Rightarrow> (True, st1\<lparr>cache := AList.update key data (cache st1)\<rparr>))"

definition getCache :: "env \<Rightarrow> storage \<Rightarrow> string \<Rightarrow> json \<times> storage" where
  "getCache e st key =
     (case map_of (cache st) key of
        Some data \<Rightarrow> (data, st)
      | None \<Rightarrow>
          if db st \<noteq> None then
            (case dbOperation_cache_get e st key of
               Inl x \<Rightarrow> (JNull, st)
             | Inr None \<Rightarrow> (JNull, st)
             | Inr (Some cacheData) \<Rightarrow>
                 if ce_expiry cacheData > now e
                 then (ce_data cacheData,
                       st\<lparr>cache := AList.update key (ce_data cacheData) (cache st)\<rparr>)
                 else (case dbOperation_cache_delete e st key of
                         Inl x \<Rightarrow> (JNull, st)
                       | Inr st1 \<Rightarrow> (JNull, st1)))
          else (JNull, st))"

text \<open>
  \<^verbatim>\<open>clearExpiredCache()\<close>: the cursor over the \<^verbatim>\<open>expiry\<close> index with
  \<^verbatim>\<open>IDBKeyRange.upperBound(now)\<close> visits the entries whose expiry is at most \<^verbatim>\<open>now\<close>
  and deletes each. The result \<open>None\<close> is \<^verbatim>\<open>undefined\<close>, what
  \<^verbatim>\<open>if (!this.db) return;\<close> returns.
\<close>

definition clearExpiredCache :: "env \<Rightarrow> storage \<Rightarrow> nat option \<times> storage" where
  "clearExpiredCache e st =
     (case db st of
        None \<Rightarrow> (None, st)
      | Some d \<Rightarrow>
          (let deletedCount = length (filter (\<lambda>x. ce_expiry x \<le> now e) (cache_store d))
           in (Some deletedCount,
               st\<lparr>db := Some (d\<lparr>cache_store :=
                                   filter (\<lambda>x. \<not> ce_expiry x \<le> now e) (cache_store d)\<rparr>)\<rparr>)))"

section \<open>Security logs\<close>

text \<open>
  \<^verbatim>\<open>getSecurityLogs(limit)\<close>: the cursor over the \<^verbatim>\<open>timestamp\<close> index in direction
  \<^verbatim>\<open>prev\<close> yields the logs by falling timestamp (and falling id among equal
  timestamps), at most \<^verbatim>\<open>limit\<close> of them.
\<close>

definition getSecurityLogs :: "storage \<Rightarrow> nat \<Rightarrow> security_log list" where
  "getSecurityLogs st limit =
     (case db st of
        None \<Rightarrow> []
      | Some d \<Rightarrow> take limit (rev (sort_key (\<lambda>l. (log_timestamp l, log_id l)) (security d))))"

definition cleanupSecurityLogs :: "env \<Rightarrow> storage \<Rightarrow> nat \<times> storage" where
  "cleanupSecurityLogs e st =
     (let thirtyDaysAgo = now e - (30 * 24 * 60 * 60 * 1000)
      in case db st of
           None \<Rightarrow> (0, st)
         | Some d \<Rightarrow>
             (length (filter (\<lambda>x. log_timestamp x \<le> thirtyDaysAgo) (security d)),
              st\<lparr>db := Some (d\<lparr>security :=
                         filter (\<lambda>x. \<not> log_timestamp x \<le> thirtyDaysAgo) (security d)\<rparr>)\<rparr>))"

section \<open>Optimisation and maintenance\<close>

record optimization =
  cacheCleared :: "nat option"
  expiredEntriesRemoved :: nat
  spaceFreed :: nat

text \<open>
  The sweep of \<^verbatim>\<open>optimizeStorage\<close>:
  \<^verbatim>\<open>for (const url of urls) if (!url._compressed && this.compressionEnabled) await this.saveURL(url)\<close>.
\<close>

fun resave :: "env \<Rightarrow> json list \<Rightarrow> storage \<Rightarrow> exn option \<times> storage" where
  "resave e [] st = (None, st)"
| "resave e (url # us) st =
     (case get_prop url ''_compressed'' of
        Inl x \<Rightarrow> (Some x, st)
      | Inr m \<Rightarrow>
          if \<not> (case m of None \<Rightarrow> False | Some v \<Rightarrow> truthy v) \<and> compressionEnabled st
          then resave e us (snd (saveURL e st url))
          else resave e us st)"

text \<open>
  The block \<^verbatim>\<open>// Remove old security logs (keep only last 1000)\<close> of
  \<^verbatim>\<open>optimizeStorage\<close>: of the 2000 most recent logs, those after the first 1000 are
  deleted by id. Its first component is \<^verbatim>\<open>toRemove.length\<close>.
\<close>

definition removeOldLogs :: "storage \<Rightarrow> nat \<times> storage" where
  "removeOldLogs st =
     (case db st of
        None \<Rightarrow> (0, st)
      | Some d \<Rightarrow>
          (let logs = getSecurityLogs st 2000
           in if length logs > 1000
              then (let toRemove = drop 1000 logs
                    in (length toRemove,
                        st\<lparr>db := Some (d\<lparr>security :=
                               fold (\<lambda>log ls. filter (\<lambda>x. log_id x \<noteq> log_id log) ls)
                                 toRemove (security d)\<rparr>)\<rparr>))
              else (0, st)))"

definition optimizeStorage :: "env \<Rightarrow> storage \<Rightarrow> optimization option \<times> storage" where
  "optimizeStorage e st =
     (let (cleared, st1) = clearExpiredCache e st;
          (removed, st2) = removeOldLogs st1;
          (all_urls, st3) = getAllURLs e st2
      in case resave e all_urls st3 of
           (Some x, st4) \<Rightarrow> (None, st4)
         | (None, st4) \<Rightarrow>
             (Some \<lparr>cacheCleared = cleared, expiredEntriesRemoved = removed, spaceFreed = 0\<rparr>,
              st4))"

record maintenance =
  m_cacheCleared :: "nat option"
  logsCleanedUp :: nat
  optimizationResults :: "optimization option"

definition performMaintenance :: "env \<Rightarrow> storage \<Rightarrow> maintenance \<times> storage" where
  "performMaintenance e st =
     (let (c, st1) = clearExpiredCache e st;
          (l, st2) = cleanupSecurityLogs e st1;
          (opt, st3) = optimizeStorage e st2
      in (\<lparr>m_cacheCleared = c, logsCleanedUp = l, optimizationResults = opt\<rparr>, st3))"

section \<open>Migration\<close>











section \<open>What an operation keeps\<close>

text \<open>
  \<open>keeps st st'\<close>: going from \<open>st\<close> to \<open>st'\<close> no key leaves the fallback store or
  the memory cache, the toggle stays, and the structured store, when there is one, still
  has a record under every key of the \<^verbatim>\<open>urls\<close> partition and has its other partitions
  unchanged.
\<close>

definition keeps :: "storage \<Rightarrow> storage \<Rightarrow> bool" where
  "keeps st st' \<longleftrightarrow>
     fst ` set (localStorage st) \<subseteq> fst ` set (localStorage st') \<and>
     fst ` set (cache st) \<subseteq> fst ` set (cache st') \<and>
     compressionEnabled st' = compressionEnabled st \<and>
     (case db st of
        None \<Rightarrow> db st' = None
      | Some d \<Rightarrow>
          (\<exists>d'. db st' = Some d' \<and>
             (\<forall>x\<in>set (urls d). \<exists>y\<in>set (urls d'). key_of y = key_of x) \<and>
             security d' = security d \<and> settings d' = settings d \<and>
             cache_store d' = cache_store d))"

text \<open>
  A store in which every record sits under its own id. The structured store refuses a
  record without a key, so each record of \<^verbatim>\<open>urls\<close> has one; the fallback store has one
  item per key, and \<^verbatim>\<open>saveURL\<close> writes a record with id \<open>i\<close> under the key
  \<^verbatim>\<open>urls_\<close>\<open>i\<close>. The fallback store matters to \<^verbatim>\<open>getAllURLs\<close> only when there is no
  structured store.
\<close>

definition fallback_consistent :: "(string \<times> stored) list \<Rightarrow> bool" where
  "fallback_consistent ls \<longleftrightarrow>
     distinct (map fst ls) \<and>
     list_all (\<lambda>(k, s). case s of
                           Text v \<Rightarrow> prefix ''urls_'' k \<longrightarrow> k = ''urls_'' @ template (key_of v)
                         | Garbage g \<Rightarrow> True) ls"

definition well_keyed :: "storage \<Rightarrow> bool" where
  "well_keyed st =
     (case db st of
        Some d \<Rightarrow> list_all (\<lambda>x. key_of x \<noteq> None) (urls d)
      | None \<Rightarrow> fallback_consistent (localStorage st))"







section \<open>Sample inputs\<close>

text \<open>
  An environment in which no store rejects a request, one in which the fallback store
  is out of quota, a manager with an empty structured store, one without a structured
  store, and the record of the specification's scenario before and after five clicks.
\<close>

definition quiet :: "int \<Rightarrow> env" where
  "quiet t = \<lparr>now = t, db_fault = (\<lambda>s p. False), ls_fault = (\<lambda>k. False)\<rparr>"


definition empty_db :: database where
  "empty_db = \<lparr>urls = [], security = [], settings = [], cache_store = []\<rparr>"

definition fresh :: storage where
  "fresh = \<lparr>db = Some empty_db, cache = [], localStorage = [], compressionEnabled = True\<rparr>"

definition offline :: storage where
  "offline = \<lparr>db = None, cache = [], localStorage = [], compressionEnabled = True\<rparr>"

definition record_v0 :: json where
  "record_v0 = JObj [(''id'', JNum 1), (''shortCode'', JStr ''abc123''), (''clicks'', JNum 0)]"


text \<open>\<open>record_v0\<close> as \<^verbatim>\<open>compressData\<close> stores it and the fallback tier returns it.\<close>

definition record_packed :: json where
  "record_packed =
     JObj [(''id'', JNum 1), (''shortCode'', JStr ''abc123''), (''clicks'', JNum 0),
           (''_compressed'', JBool True), (''_originalSize'', JNum 40),
           (''_compressedSize'', JNum 40)]"


text \<open>
  A manager whose structured store holds one URL record stored uncompressed, a security
  log from time 0 and one from 40 days later, and a cache entry that expired at 1000
  and one that lives for another day; the clock of \<open>day40\<close> is 40 days.
\<close>

definition busy_db :: database where
  "busy_db =
     \<lparr>urls = [record_v0],
      security = [\<lparr>log_id = 1, log_timestamp = 0, log_data = []\<rparr>,
                  \<lparr>log_id = 2, log_timestamp = 3456000000, log_data = []\<rparr>],
      settings = [\<lparr>s_key = ''theme'', s_value = JStr ''default'', s_timestamp = 0\<rparr>],
      cache_store = [\<lparr>ce_key = ''a'', ce_data = JNum 1, ce_timestamp = 0, ce_expiry = 1000\<rparr>,
                     \<lparr>ce_key = ''b'', ce_data = JNum 2, ce_timestamp = 3456000000,
                        ce_expiry = 3542400000\<rparr>]\<rparr>"

definition busy_store :: storage where
  "busy_store = fresh\<lparr>db := Some busy_db\<rparr>"

definition day40 :: env where
  "day40 = quiet 3456000000"




section \<open>Properties of compression\<close>

lemma update_fresh: "map_of kvs k = None \<Longrightarrow> AList.update k v kvs = kvs @ [(k, v)]"
  by (induction kvs) (auto split: if_splits)

lemma delete_fresh: "map_of kvs k = None \<Longrightarrow> AList.delete k kvs = kvs"
  by (induction kvs) (auto split: if_splits)

lemma delete_append: "AList.delete k (xs @ ys) = AList.delete k xs @ AList.delete k ys"
  by (simp add: AList.delete_eq)

lemma plain_record_fields:
  "plain_record r \<longleftrightarrow>
     (\<exists>kvs. r = JObj kvs \<and> map_of kvs ''_compressed'' = None
        \<and> map_of kvs ''_originalSize'' = None \<and> map_of kvs ''_compressedSize'' = None)"
  by (cases r) (auto simp: plain_record_def bookkeeping_def)

lemma compressData_plain:
  assumes "map_of kvs ''_compressed'' = None" "map_of kvs ''_originalSize'' = None"
    "map_of kvs ''_compressedSize'' = None"
  shows "compressData (JObj kvs) =
           JObj (kvs @ [(''_compressed'', JBool True),
                        (''_originalSize'', JNum (int (length (stringify (JObj kvs))))),
                        (''_compressedSize'',
                           JNum (int (length (strip_patterns (stringify (JObj kvs))))))])"
  using assms
  by (simp add: compressData_def spread_def Let_def update_fresh del: stringify.simps)

lemma decompress_packed:
  assumes "map_of kvs ''_compressed'' = None" "map_of kvs ''_originalSize'' = None"
    "map_of kvs ''_compressedSize'' = None"
  shows "decompressData (JObj (kvs @ [(''_compressed'', JBool True),
            (''_originalSize'', n), (''_compressedSize'', m)])) = JObj kvs"
  using assms
  by (simp add: decompressData_def delete_append delete_fresh map_add_def)

lemma decompress_compress: "plain_record r \<Longrightarrow> decompressData (compressData r) = r"
  by (auto simp: plain_record_fields compressData_plain decompress_packed
      simp del: stringify.simps)

lemma decompress_plain: "plain_record r \<Longrightarrow> decompressData r = r"
  by (auto simp: plain_record_fields decompressData_def)

lemma length_join_snoc:
  "length (join_with sep (xs @ [y])) =
     length (join_with sep xs) + (if xs = [] then 0 else length sep) + length y"
  by (induction sep xs rule: join_with.induct) auto

lemma stringify_snoc:
  "length (stringify (JObj kvs)) < length (stringify (JObj (kvs @ [p])))"
  by (cases p) (simp add: length_join_snoc quote_def)

lemma stringify_snoc3:
  "length (stringify (JObj kvs)) < length (stringify (JObj (kvs @ [a, b, c])))"
proof -
  have "length (stringify (JObj kvs)) < length (stringify (JObj (kvs @ [a])))"
    by (rule stringify_snoc)
  also have "\<dots> < length (stringify (JObj ((kvs @ [a]) @ [b])))"
    by (rule stringify_snoc)
  also have "\<dots> < length (stringify (JObj (((kvs @ [a]) @ [b]) @ [c])))"
    by (rule stringify_snoc)
  finally show ?thesis by simp
qed

lemma template_Some: "template (Some i) = to_str i"
  by (simp add: template_def)

lemma saveURL_cache:
  assumes "saveURL e st r = (True, st')" "get_prop r ''id'' = Inr i"
  shows "map_of (cache st') (''url_'' @ template i) =
           Some (if compressionEnabled st then compressData r else r)"
    and "compressionEnabled st' = compressionEnabled st"
  using assms
  by (auto simp: saveURL_def Let_def backupToLocalStorage_def dbOperation_urls_put_def
      update_conv split: sum.splits option.splits if_splits)

lemma getURL_cached:
  assumes "map_of (cache st) (''url_'' @ to_str i) = Some data"
  shows "getURL e st i = (if compressionEnabled st then decompressData data else data, st)"
  using assms by (simp add: getURL_def Let_def)

text \<open>
  C2. For every valid URL record \<open>r\<close>, decompressing the compressed record gives \<open>r\<close>
  back field for field: every field of \<open>r\<close> is there and the three bookkeeping fields
  are gone. With the compression toggle off, \<^verbatim>\<open>saveURL\<close> stores \<open>r\<close> itself and
  \<^verbatim>\<open>getURL\<close> returns it as it is.
\<close>

theorem compress_roundtrip:
  assumes "plain_record r"
  shows "decompressData (compressData r) = r \<and>
         (\<forall>e st i st' e'. \<not> compressionEnabled st \<and> get_prop r ''id'' = Inr (Some i) \<and>
              saveURL e st r = (True, st') \<longrightarrow>
            map_of (cache st') (''url_'' @ to_str i) = Some r \<and> fst (getURL e' st' i) = r)"
proof (intro conjI allI impI)
  show "decompressData (compressData r) = r"
    using assms by (rule decompress_compress)
next
  fix e st i st' e'
  assume a: "\<not> compressionEnabled st \<and> get_prop r ''id'' = Inr (Some i) \<and>
              saveURL e st r = (True, st')"
  then have c: "map_of (cache st') (''url_'' @ to_str i) = Some r"
    and t: "\<not> compressionEnabled st'"
    using saveURL_cache [of e st r st' "Some i"] by (simp_all add: template_Some)
  show "map_of (cache st') (''url_'' @ to_str i) = Some r" by (rule c)
  show "fst (getURL e' st' i) = r"
    using getURL_cached [OF c, of e'] t by simp
qed

theorem compress_roundtrip_witness:
  "plain_record record_v0 \<and> decompressData (compressData record_v0) = record_v0 \<and>
   fst (getURL (quiet 1)
          (snd (saveURL (quiet 0) (fresh\<lparr>compressionEnabled := False\<rparr>) record_v0))
          (JNum 1)) = record_v0"
proof -
  have p: "plain_record record_v0" by code_simp
  have i: "get_prop record_v0 ''id'' = Inr (Some (JNum 1))" by code_simp
  have s: "saveURL (quiet 0) (fresh\<lparr>compressionEnabled := False\<rparr>) record_v0 =
             (True, snd (saveURL (quiet 0) (fresh\<lparr>compressionEnabled := False\<rparr>) record_v0))"
    by code_simp
  have t: "\<not> compressionEnabled (fresh\<lparr>compressionEnabled := False\<rparr>)" by simp
  from compress_roundtrip [OF p] t i s p show ?thesis by blast
qed

text \<open>
  C9, as amended. For every record \<open>r\<close> that does not already carry one of the three
  bookkeeping fields, \<^verbatim>\<open>compressData\<close> returns \<open>r\<close>'s fields, unchanged and in order,
  followed by \<^verbatim>\<open>_compressed\<close>, \<^verbatim>\<open>_originalSize\<close> and \<^verbatim>\<open>_compressedSize\<close>: three
  fields more, every field of \<open>r\<close> readable as before, and a strictly longer
  serialisation.
\<close>

theorem compressData_grows:
  assumes "plain_record r"
  shows "compressData r =
           JObj (spread r @
             [(''_compressed'', JBool True),
              (''_originalSize'', JNum (int (length (stringify r)))),
              (''_compressedSize'', JNum (int (length (strip_patterns (stringify r)))))]) \<and>
         length (spread (compressData r)) = length (spread r) + 3 \<and>
         (\<forall>k v. get_prop r k = Inr (Some v) \<longrightarrow> get_prop (compressData r) k = Inr (Some v)) \<and>
         length (stringify r) < length (stringify (compressData r))"
proof -
  from assms obtain kvs where r: "r = JObj kvs" and f: "map_of kvs ''_compressed'' = None"
    "map_of kvs ''_originalSize'' = None" "map_of kvs ''_compressedSize'' = None"
    by (auto simp: plain_record_fields)
  note c = compressData_plain [OF f]
  have 1: "compressData r =
           JObj (spread r @
             [(''_compressed'', JBool True),
              (''_originalSize'', JNum (int (length (stringify r)))),
              (''_compressedSize'', JNum (int (length (strip_patterns (stringify r)))))])"
    unfolding r c by (simp add: spread_def)
  have 2: "length (spread (compressData r)) = length (spread r) + 3"
    unfolding r c by (simp add: spread_def)
  have 3: "get_prop (compressData r) k = Inr (Some v)" if "get_prop r k = Inr (Some v)" for k v
    using that unfolding r c by (simp add: get_prop_def map_add_def)
  have 4: "length (stringify r) < length (stringify (compressData r))"
    unfolding r c by (rule stringify_snoc3)
  from 1 2 3 4 show ?thesis by blast
qed

theorem compressData_grows_witness:
  "plain_record record_v0 \<and>
   length (spread (compressData record_v0)) = length (spread record_v0) + 3 \<and>
   length (stringify record_v0) < length (stringify (compressData record_v0))"
proof -
  have p: "plain_record record_v0" by code_simp
  from compressData_grows [OF p] p show ?thesis by blast
qed

text \<open>
  The claim as stated fails on a record that carries the bookkeeping fields already,
  such as a stored record read back from the fallback tier and saved again: the three
  fields are overwritten, none is added, and the serialisation keeps its length.
\<close>

theorem compressData_grows_counterexample:
  "\<not> length (spread (compressData record_packed)) = length (spread record_packed) + 3 \<and>
   \<not> length (stringify record_packed) < length (stringify (compressData record_packed))"
  by code_simp

section \<open>Properties of the read and write paths\<close>

lemma truthy_compressData: "truthy (compressData r)"
  by (simp add: compressData_def Let_def)

lemma plain_record_truthy: "plain_record r \<Longrightarrow> truthy r"
  by (auto simp: plain_record_fields)

text \<open>
  C3, as amended. With the compression toggle on, \<^verbatim>\<open>getURL\<close> returns a stored URL
  record without marker or bookkeeping fields whether it was stored compressed or not,
  when it is served from the memory cache or from the structured store: compression is
  detected per record through the marker. With the toggle off, \<^verbatim>\<open>getURL\<close> returns the
  stored representation as it is, so a record stored compressed comes back with its
  marker and size fields.
\<close>

theorem getURL_decompression:
  assumes "plain_record r" and "data = r \<or> data = compressData r"
    and "map_of (cache st) (''url_'' @ to_str i) = Some data \<or>
         (map_of (cache st) (''url_'' @ to_str i) = None \<and> db st \<noteq> None \<and>
          dbOperation_urls_get e st i = Inr (Some data))"
  shows "fst (getURL e st i) = (if compressionEnabled st then r else data)"
proof -
  have d: "decompressData data = r"
    using assms(1,2) by (auto simp: decompress_compress decompress_plain)
  have t: "truthy data"
    using assms(1,2) by (auto simp: truthy_compressData plain_record_truthy)
  from assms(3) show ?thesis
  proof
    assume "map_of (cache st) (''url_'' @ to_str i) = Some data"
    then show ?thesis by (simp add: getURL_cached d)
  next
    assume "map_of (cache st) (''url_'' @ to_str i) = None \<and> db st \<noteq> None \<and>
          dbOperation_urls_get e st i = Inr (Some data)"
    then show ?thesis using t by (simp add: getURL_def Let_def d)
  qed
qed

theorem getURL_decompression_witness:
  "plain_record record_v0 \<and> record_packed = compressData record_v0 \<and>
   fst (getURL (quiet 0) (fresh\<lparr>cache := [(''url_1'', record_packed)]\<rparr>) (JNum 1)) = record_v0 \<and>
   fst (getURL (quiet 0) (fresh\<lparr>db := Some (empty_db\<lparr>urls := [record_v0]\<rparr>)\<rparr>) (JNum 1))
     = record_v0"
proof -
  have p: "plain_record record_v0" by code_simp
  have c: "record_packed = compressData record_v0" by code_simp
  have m: "map_of (cache (fresh\<lparr>cache := [(''url_1'', record_packed)]\<rparr>))
             (''url_'' @ to_str (JNum 1)) = Some record_packed"
    by code_simp
  have n: "map_of (cache (fresh\<lparr>db := Some (empty_db\<lparr>urls := [record_v0]\<rparr>)\<rparr>))
             (''url_'' @ to_str (JNum 1)) = None \<and>
           db (fresh\<lparr>db := Some (empty_db\<lparr>urls := [record_v0]\<rparr>)\<rparr>) \<noteq> None \<and>
           dbOperation_urls_get (quiet 0)
             (fresh\<lparr>db := Some (empty_db\<lparr>urls := [record_v0]\<rparr>)\<rparr>) (JNum 1) =
             Inr (Some record_v0)"
    by code_simp
  have t: "compressionEnabled (fresh\<lparr>cache := [(''url_1'', record_packed)]\<rparr>)"
    "compressionEnabled (fresh\<lparr>db := Some (empty_db\<lparr>urls := [record_v0]\<rparr>)\<rparr>)"
    by (simp_all add: fresh_def)
  have 1: "fst (getURL (quiet 0) (fresh\<lparr>cache := [(''url_1'', record_packed)]\<rparr>) (JNum 1))
             = record_v0"
    using getURL_decompression [OF p disjI2 [OF c] disjI1 [OF m], of "quiet 0"] t(1) by simp
  have 2: "fst (getURL (quiet 0) (fresh\<lparr>db := Some (empty_db\<lparr>urls := [record_v0]\<rparr>)\<rparr>)
                  (JNum 1)) = record_v0"
    using getURL_decompression [OF p disjI1 [OF refl] disjI2 [OF n]] t(2) by simp
  from p c 1 2 show ?thesis by blast
qed

text \<open>
  The claim as stated fails with the toggle off: a compressed record in the memory
  cache comes back with its marker. It also fails on the fallback tier, whose branch of
  \<^verbatim>\<open>getURL\<close> returns the stored item without calling \<^verbatim>\<open>decompressData\<close> at all, here
  with the toggle on.
\<close>

theorem getURL_decompression_counterexample:
  "get_prop (fst (getURL (quiet 0)
       (fresh\<lparr>cache := [(''url_1'', record_packed)], compressionEnabled := False\<rparr>) (JNum 1)))
     ''_compressed'' = Inr (Some (JBool True)) \<and>
   get_prop (fst (getURL (quiet 0)
       (offline\<lparr>localStorage := [(''urls_1'', Text record_packed)]\<rparr>) (JNum 1)))
     ''_compressed'' = Inr (Some (JBool True))"
  by code_simp




lemma map_of_delete_same: "map_of (AList.delete k al) k = None"
  by (simp add: AList.delete_eq map_of_eq_None_iff image_iff)

text \<open>
  C10, as amended. \<^verbatim>\<open>deleteURL(id)\<close> returns \<^verbatim>\<open>true\<close> for every id that the
  structured store takes as a key (a number or a string, as the ids of URL records
  are), whether or not a record is stored under it, when the store does not reject the
  request; afterwards no tier holds a record under that id, and a second call returns
  \<^verbatim>\<open>true\<close> again and changes nothing. When the store is there and either rejects
  the request or is given an id that is no key, \<^verbatim>\<open>deleteURL\<close> returns
  \<^verbatim>\<open>false\<close> and changes nothing: the memory cache and the fallback store keep their
  entries.
\<close>

theorem deleteURL_idempotent:
  "((db st \<noteq> None \<longrightarrow> valid_key i \<and> \<not> db_fault e ''urls'' ''delete'') \<longrightarrow>
     fst (deleteURL e st i) \<and>
     map_of (cache (snd (deleteURL e st i))) (''url_'' @ to_str i) = None \<and>
     map_of (localStorage (snd (deleteURL e st i))) (''urls_'' @ to_str i) = None \<and>
     (\<forall>d. db (snd (deleteURL e st i)) = Some d \<longrightarrow>
        find (\<lambda>x. key_of x = Some i) (urls d) = None) \<and>
     deleteURL e (snd (deleteURL e st i)) i = (True, snd (deleteURL e st i))) \<and>
   (db st \<noteq> None \<and> (\<not> valid_key i \<or> db_fault e ''urls'' ''delete'') \<longrightarrow>
      deleteURL e st i = (False, st))"
  by (auto simp: deleteURL_def Let_def dbOperation_urls_delete_def urls_delete_def
      removeFromLocalStorage_def map_of_delete_same find_None_iff delete_fresh
      split: option.splits sum.splits if_splits)

theorem deleteURL_idempotent_witness:
  "fst (deleteURL (quiet 0) fresh (JNum 99)) \<and>
   fst (deleteURL (quiet 0) (snd (saveURL (quiet 0) fresh record_v0)) (JNum 1)) \<and>
   fst (getURL (quiet 0)
          (snd (deleteURL (quiet 0) (snd (saveURL (quiet 0) fresh record_v0)) (JNum 1)))
          (JNum 1)) = JNull"
proof -
  have h: "db fresh \<noteq> None \<longrightarrow> valid_key (JNum 99) \<and> \<not> db_fault (quiet 0) ''urls'' ''delete''"
    by (simp add: quiet_def)
  have k: "db (snd (saveURL (quiet 0) fresh record_v0)) \<noteq> None \<longrightarrow>
             valid_key (JNum 1) \<and> \<not> db_fault (quiet 0) ''urls'' ''delete''"
    by (simp add: quiet_def)
  have g: "fst (getURL (quiet 0)
          (snd (deleteURL (quiet 0) (snd (saveURL (quiet 0) fresh record_v0)) (JNum 1)))
          (JNum 1)) = JNull"
    by code_simp
  from deleteURL_idempotent [of fresh "JNum 99" "quiet 0"]
    deleteURL_idempotent [of "snd (saveURL (quiet 0) fresh record_v0)" "JNum 1" "quiet 0"]
    h k g
  show ?thesis by blast
qed

text \<open>
  The claim as stated fails when the structured store rejects the delete request, and
  on \<^verbatim>\<open>null\<close>, which is no key: \<^verbatim>\<open>deleteURL\<close> returns \<^verbatim>\<open>false\<close>, and in the first
  case the record saved before is still returned by \<^verbatim>\<open>getURL\<close>.
\<close>

theorem deleteURL_idempotent_counterexample:
  "\<not> fst (deleteURL (quiet 1 \<lparr>db_fault := \<lambda>s p. True\<rparr>)
            (snd (saveURL (quiet 0) fresh record_v0)) (JNum 1)) \<and>
   fst (getURL (quiet 2)
          (snd (deleteURL (quiet 1 \<lparr>db_fault := \<lambda>s p. True\<rparr>)
                 (snd (saveURL (quiet 0) fresh record_v0)) (JNum 1)))
          (JNum 1)) = record_v0 \<and>
   \<not> fst (deleteURL (quiet 1) fresh JNull)"
  by code_simp

section \<open>Properties of the cache\<close>

lemma find_filter_snoc:
  "find (\<lambda>x. f x = k) (filter (\<lambda>x. f x \<noteq> k) xs @ [y]) = (if f y = k then Some y else None)"
  by (induction xs) auto

text \<open>
  C1. After \<^verbatim>\<open>setCache(k, d, t)\<close> has succeeded, \<^verbatim>\<open>getCache(k)\<close> returns \<open>d\<close> from the
  memory cache at every later time, also at and after the expiry instant, and leaves the
  entry in the durable cache partition: the branch that reads the memory cache does not
  look at the expiry. The claim asks for \<^verbatim>\<open>null\<close> and an eviction from the expiry
  instant on, which only the branch that reads the structured store does.
\<close>

theorem getCache_ignores_expiry:
  assumes "setCache e st k data ttl = (True, st')"
  shows "getCache e' st' k = (data, st') \<and>
         (\<forall>d. db st' = Some d \<longrightarrow>
            find (\<lambda>x. ce_key x = k) (cache_store d) =
              Some \<lparr>ce_key = k, ce_data = data, ce_timestamp = now e, ce_expiry = now e + ttl\<rparr>)"
  using assms
  by (auto simp: setCache_def getCache_def Let_def dbOperation_cache_put_def update_conv
      find_filter_snoc split: if_splits option.splits sum.splits)

theorem getCache_ignores_expiry_witness:
  "fst (getCache (quiet 1000) (snd (setCache (quiet 0) fresh ''k'' (JStr ''v'') 1000)) ''k'')
     = JStr ''v'' \<and>
   fst (getCache (quiet 5000) (snd (setCache (quiet 0) fresh ''k'' (JStr ''v'') 1000)) ''k'')
     = JStr ''v''"
proof -
  have s: "setCache (quiet 0) fresh ''k'' (JStr ''v'') 1000 =
             (True, snd (setCache (quiet 0) fresh ''k'' (JStr ''v'') 1000))"
    by code_simp
  from getCache_ignores_expiry [OF s, of "quiet 1000"]
    getCache_ignores_expiry [OF s, of "quiet 5000"]
  show ?thesis by simp
qed

text \<open>
  The branch of \<^verbatim>\<open>getCache\<close> that reads the structured store, taken when the memory
  cache has no entry for the key (after a restart), does what the claim says.
\<close>

lemma getCache_cold:
  assumes "map_of (cache st) k = None" "db st = Some d"
    "find (\<lambda>x. ce_key x = k) (cache_store d) = Some c" "\<not> db_fault e ''cache'' ''get''"
    "\<not> db_fault e ''cache'' ''delete''"
  shows "getCache e st k =
           (if now e < ce_expiry c
            then (ce_data c, st\<lparr>cache := AList.update k (ce_data c) (cache st)\<rparr>)
            else (JNull, st\<lparr>db := Some (d\<lparr>cache_store :=
                               filter (\<lambda>x. ce_key x \<noteq> k) (cache_store d)\<rparr>)\<rparr>))"
  using assms
  by (simp add: getCache_def dbOperation_cache_get_def dbOperation_cache_delete_def)

text \<open>
  C6. Without a structured store \<^verbatim>\<open>clearExpiredCache\<close> returns \<^verbatim>\<open>undefined\<close>
  (\<^verbatim>\<open>if (!this.db) return;\<close>), not the count of removed entries, which is zero there
  and which its \<^verbatim>\<open>catch\<close> branch returns as \<^verbatim>\<open>0\<close>.
\<close>

theorem clearExpiredCache_unavailable:
  assumes "db st = None"
  shows "clearExpiredCache e st = (None, st)"
  using assms by (simp add: clearExpiredCache_def)

theorem clearExpiredCache_unavailable_witness:
  "clearExpiredCache (quiet 0) offline = (None, offline)"
proof -
  have "db offline = None" by (simp add: offline_def)
  then show ?thesis by (rule clearExpiredCache_unavailable)
qed

text \<open>
  With a structured store it deletes exactly the entries of the cache partition whose
  expiry is at most the current time, returns their number, and changes nothing else.
\<close>

lemma clearExpiredCache_available:
  assumes "db st = Some d"
  shows "clearExpiredCache e st =
           (Some (length (filter (\<lambda>x. ce_expiry x \<le> now e) (cache_store d))),
            st\<lparr>db := Some (d\<lparr>cache_store :=
                               filter (\<lambda>x. \<not> ce_expiry x \<le> now e) (cache_store d)\<rparr>)\<rparr>)"
  using assms by (simp add: clearExpiredCache_def Let_def)

section \<open>Properties of the maintenance\<close>

lemma keeps_refl: "keeps st st"
  by (auto simp: keeps_def split: option.splits)

lemma keeps_trans:
  assumes ab: "keeps a b" and bc: "keeps b c"
  shows "keeps a c"
proof -
  have l: "fst ` set (localStorage a) \<subseteq> fst ` set (localStorage c)"
    using ab bc unfolding keeps_def by (meson subset_trans)
  have m: "fst ` set (cache a) \<subseteq> fst ` set (cache c)"
    using ab bc unfolding keeps_def by (meson subset_trans)
  have t: "compressionEnabled c = compressionEnabled a"
    using ab bc unfolding keeps_def by simp
  show ?thesis
  proof (cases "db a")
    case None
    then have "db b = None" using ab by (simp add: keeps_def)
    then have "db c = None" using bc by (simp add: keeps_def)
    then show ?thesis using None l m t by (simp add: keeps_def)
  next
    case (Some d)
    from ab Some obtain d' where b: "db b = Some d'"
      and k1: "\<forall>x\<in>set (urls d). \<exists>y\<in>set (urls d'). key_of y = key_of x"
      and r1: "security d' = security d" "settings d' = settings d"
        "cache_store d' = cache_store d"
      unfolding keeps_def by auto
    from bc b obtain d'' where c: "db c = Some d''"
      and k2: "\<forall>x\<in>set (urls d'). \<exists>y\<in>set (urls d''). key_of y = key_of x"
      and r2: "security d'' = security d'" "settings d'' = settings d'"
        "cache_store d'' = cache_store d'"
      unfolding keeps_def by auto
    have k: "\<forall>x\<in>set (urls d). \<exists>y\<in>set (urls d''). key_of y = key_of x"
      using k1 k2 by metis
    show ?thesis
      unfolding keeps_def using Some c k r1 r2 l m t by simp
  qed
qed

lemma urls_put_keys:
  assumes "urls_put r us = Inr us'" "x \<in> set us"
  shows "\<exists>y\<in>set us'. key_of y = key_of x"
proof -
  from assms(1) obtain k where k: "key_of r = Some k"
    and us': "us' = filter (\<lambda>x. key_of x \<noteq> Some k) us @ [r]"
    by (auto simp: urls_put_def split: option.splits if_splits)
  show ?thesis
  proof (cases "key_of x = Some k")
    case True
    then show ?thesis using k us' by auto
  next
    case False
    then show ?thesis using assms(2) us' by auto
  qed
qed

lemma saveURL_db:
  "(case db st of
      None \<Rightarrow> db (snd (saveURL e st u)) = None
    | Some d \<Rightarrow>
        (\<exists>d'. db (snd (saveURL e st u)) = Some d' \<and>
           (\<forall>x\<in>set (urls d). \<exists>y\<in>set (urls d'). key_of y = key_of x) \<and>
           security d' = security d \<and> settings d' = settings d \<and>
           cache_store d' = cache_store d))"
proof (cases "db st")
  case None
  then show ?thesis
    by (simp add: saveURL_def Let_def backupToLocalStorage_def split: sum.splits)
next
  case (Some d)
  let ?c = "if compressionEnabled st then compressData u else u"
  show ?thesis
  proof (cases "dbOperation_urls_put e st ?c")
    case (Inl x)
    then show ?thesis using Some by (auto simp: saveURL_def Let_def)
  next
    case (Inr st1)
    then obtain us where us: "urls_put ?c (urls d) = Inr us"
      and st1: "st1 = st\<lparr>db := Some (d\<lparr>urls := us\<rparr>)\<rparr>"
      using Some by (auto simp: dbOperation_urls_put_def split: if_splits sum.splits)
    have "db (snd (saveURL e st u)) = Some (d\<lparr>urls := us\<rparr>)"
      using Some Inr st1
      by (simp add: saveURL_def Let_def backupToLocalStorage_def split: sum.splits)
    then show ?thesis using Some urls_put_keys [OF us] by simp
  qed
qed

lemma saveURL_other:
  "fst ` set (localStorage st) \<subseteq> fst ` set (localStorage (snd (saveURL e st u)))"
  "fst ` set (cache st) \<subseteq> fst ` set (cache (snd (saveURL e st u)))"
  "compressionEnabled (snd (saveURL e st u)) = compressionEnabled st"
  by (auto simp: saveURL_def Let_def backupToLocalStorage_def dbOperation_urls_put_def
      dom_update split: sum.splits option.splits if_splits)

lemma saveURL_keeps: "keeps st (snd (saveURL e st u))"
  unfolding keeps_def using saveURL_db [where st = st and e = e and u = u]
    saveURL_other [where st = st and e = e and u = u]
  by simp

lemma cache_each_keys: "fst ` set c \<subseteq> fst ` set (snd (cache_each us c))"
proof (induction us arbitrary: c)
  case Nil
  then show ?case by simp
next
  case (Cons u us)
  show ?case
  proof (cases "get_prop u ''id''")
    case (Inl x)
    then show ?thesis by simp
  next
    case (Inr i)
    have "fst ` set c \<subseteq> fst ` set (AList.update (''url_'' @ template i) u c)"
      by (auto simp: dom_update)
    also have "\<dots> \<subseteq> fst ` set (snd (cache_each us (AList.update (''url_'' @ template i) u c)))"
      by (rule Cons.IH)
    finally show ?thesis using Inr by simp
  qed
qed

lemma getAllURLs_keeps: "keeps st (snd (getAllURLs e st))"
proof -
  have "keeps st (st\<lparr>cache := snd (cache_each us (cache st))\<rparr>)" for us
    using cache_each_keys [of "cache st" us]
    by (auto simp: keeps_def split: option.splits)
  then have "keeps st (st\<lparr>cache := c\<rparr>)" if "cache_each us (cache st) = (x, c)" for us x c
    using that by (metis snd_conv)
  then show ?thesis
    by (auto simp: getAllURLs_def keeps_refl split: sum.splits prod.splits option.splits)
qed

lemma resave_keeps: "keeps st (snd (resave e us st))"
proof (induction us arbitrary: st)
  case Nil
  then show ?case by (simp add: keeps_refl)
next
  case (Cons u us)
  show ?case
  proof (cases "get_prop u ''_compressed''")
    case (Inl x)
    then show ?thesis by (simp add: keeps_refl)
  next
    case (Inr m)
    show ?thesis
    proof (cases "\<not> (case m of None \<Rightarrow> False | Some v \<Rightarrow> truthy v) \<and> compressionEnabled st")
      case True
      have "keeps st (snd (saveURL e st u))" by (rule saveURL_keeps)
      moreover have "keeps (snd (saveURL e st u)) (snd (resave e us (snd (saveURL e st u))))"
        by (rule Cons.IH)
      ultimately show ?thesis using Inr True by (simp add: keeps_trans)
    next
      case False
      then show ?thesis using Inr Cons.IH [of st] by auto
    qed
  qed
qed


lemma fold_delete_ids:
  "fold (\<lambda>log ls. filter (\<lambda>x. log_id x \<noteq> log_id log) ls) rs xs =
     filter (\<lambda>x. log_id x \<notin> log_id ` set rs) xs"
proof (induction rs arbitrary: xs)
  case Nil
  then show ?case by simp
next
  case (Cons r rs)
  have "filter (\<lambda>x. log_id x \<notin> log_id ` set rs) (filter (\<lambda>x. log_id x \<noteq> log_id r) xs) =
        filter (\<lambda>x. log_id x \<notin> log_id ` set (r # rs)) xs"
    by (induction xs) auto
  then show ?case using Cons.IH by simp
qed

lemma fst_le_prod: "(p :: int \<times> int) \<le> q \<Longrightarrow> fst p \<le> fst q"
  by (auto simp: less_eq_prod_def)

lemma cap_removed:
  fixes S :: "security_log list"
  defines "ys \<equiv> rev (sort_key (\<lambda>l. (log_timestamp l, log_id l)) S)"
  defines "R \<equiv> drop 1000 (take 2000 ys)"
  defines "S2 \<equiv> fold (\<lambda>log ls. filter (\<lambda>x. log_id x \<noteq> log_id log) ls) R S"
  assumes dist: "distinct (map log_id S)" and long: "1000 < length (take 2000 ys)"
    and l: "l \<in> set S" "l \<notin> set S2"
  shows "1000 \<le> length (filter (\<lambda>x. log_timestamp l \<le> log_timestamp x) S2)"
proof -
  let ?f = "\<lambda>l. (log_timestamp l, log_id l)"
  define K where "K = take 1000 ys"
  define D where "D = drop 1000 ys"
  have inj: "inj_on log_id (set S)" and dS: "distinct S"
    using dist by (auto simp: distinct_map)
  have set_ys: "set ys = set S" and dys: "distinct ys"
    using dS by (simp_all add: ys_def)
  have ys: "ys = K @ D" by (simp add: K_def D_def)
  have S2: "S2 = filter (\<lambda>x. log_id x \<notin> log_id ` set R) S"
    by (simp add: S2_def fold_delete_ids)
  have RD: "set R \<subseteq> set D"
    unfolding R_def D_def by (simp add: drop_take set_take_subset)
  have DS: "set D \<subseteq> set S" and KS: "set K \<subseteq> set S"
    using set_ys ys by auto
  have disj: "set K \<inter> set D = {}"
    using dys ys by simp
  have lK: "length K = 1000"
    using long by (simp add: K_def)
  have dK: "distinct K"
    using dys ys by simp
  have "sorted (map ?f (rev ys))"
    by (simp add: ys_def)
  then have "sorted (map ?f (rev D) @ map ?f (rev K))"
    by (simp add: ys)
  then have ord: "?f y \<le> ?f x" if "x \<in> set K" "y \<in> set D" for x y
    using that by (auto simp: sorted_append)
  from l have "log_id l \<in> log_id ` set R"
    by (simp add: S2)
  then obtain r where r: "r \<in> set R" "log_id r = log_id l" by auto
  then have "r = l"
    using inj l(1) RD DS by (meson inj_onD subsetD)
  then have lD: "l \<in> set D" using r RD by auto
  have KS2: "set K \<subseteq> set (filter (\<lambda>x. log_timestamp l \<le> log_timestamp x) S2)"
  proof
    fix x assume x: "x \<in> set K"
    have 1: "log_timestamp l \<le> log_timestamp x"
      using fst_le_prod [OF ord [OF x lD]] by simp
    have 2: "x \<in> set S" using x KS by auto
    have 3: "log_id x \<notin> log_id ` set R"
    proof
      assume "log_id x \<in> log_id ` set R"
      then obtain q where q: "q \<in> set R" "log_id q = log_id x" by auto
      then have "q = x" using inj 2 RD DS by (meson inj_onD subsetD)
      then show False using q x RD disj by auto
    qed
    show "x \<in> set (filter (\<lambda>x. log_timestamp l \<le> log_timestamp x) S2)"
      using 1 2 3 by (simp add: S2)
  qed
  have "1000 = card (set K)"
    using dK lK by (simp add: distinct_card)
  also have "\<dots> \<le> card (set (filter (\<lambda>x. log_timestamp l \<le> log_timestamp x) S2))"
    by (rule card_mono [OF _ KS2]) simp
  also have "\<dots> \<le> length (filter (\<lambda>x. log_timestamp l \<le> log_timestamp x) S2)"
    by (rule card_length)
  finally show ?thesis .
qed


lemma optimizeStorage_state:
  "snd (optimizeStorage e st) =
     snd (resave e (fst (getAllURLs e (snd (removeOldLogs (snd (clearExpiredCache e st))))))
            (snd (getAllURLs e (snd (removeOldLogs (snd (clearExpiredCache e st)))))))"
  by (simp add: optimizeStorage_def case_prod_beta Let_def split: prod.splits option.splits)

lemma sweep_keeps:
  "keeps st (snd (resave e (fst (getAllURLs e st)) (snd (getAllURLs e st))))"
  using getAllURLs_keeps resave_keeps by (rule keeps_trans)

lemma removeOldLogs_db:
  assumes "db st = Some d"
  shows "\<exists>S. snd (removeOldLogs st) = st\<lparr>db := Some (d\<lparr>security := S\<rparr>)\<rparr> \<and>
           set S \<subseteq> set (security d) \<and>
           (distinct (map log_id (security d)) \<longrightarrow>
              (\<forall>l\<in>set (security d). l \<notin> set S \<longrightarrow>
                 1000 \<le> length (filter (\<lambda>x. log_timestamp l \<le> log_timestamp x) S)))"
proof (cases "1000 < length (getSecurityLogs st 2000)")
  case False
  then have "snd (removeOldLogs st) = st\<lparr>db := Some (d\<lparr>security := security d\<rparr>)\<rparr>"
    using assms by (simp add: removeOldLogs_def Let_def)
  then show ?thesis by blast
next
  case True
  let ?ys = "rev (sort_key (\<lambda>l. (log_timestamp l, log_id l)) (security d))"
  let ?S = "fold (\<lambda>log ls. filter (\<lambda>x. log_id x \<noteq> log_id log) ls)
              (drop 1000 (take 2000 ?ys)) (security d)"
  have g: "getSecurityLogs st 2000 = take 2000 ?ys"
    using assms by (simp add: getSecurityLogs_def)
  have 1: "snd (removeOldLogs st) = st\<lparr>db := Some (d\<lparr>security := ?S\<rparr>)\<rparr>"
    using assms True g by (simp add: removeOldLogs_def Let_def)
  have 2: "set ?S \<subseteq> set (security d)"
    by (simp add: fold_delete_ids)
  have 3: "1000 \<le> length (filter (\<lambda>x. log_timestamp l \<le> log_timestamp x) ?S)"
    if "distinct (map log_id (security d))" "l \<in> set (security d)" "l \<notin> set ?S" for l
    using cap_removed [OF that(1) _ that(2,3)] True g by simp
  from 1 2 3 show ?thesis by blast
qed


lemma performMaintenance_state:
  "snd (performMaintenance e st) =
     snd (optimizeStorage e (snd (cleanupSecurityLogs e (snd (clearExpiredCache e st)))))"
  by (simp add: performMaintenance_def case_prod_beta Let_def)

text \<open>
  C8. From every storage state \<^verbatim>\<open>performMaintenance\<close> removes no record of the
  \<^verbatim>\<open>urls\<close> partition: every key of the partition still has a record afterwards. What
  it deletes are the cache-partition entries whose expiry is at most the current time,
  and security logs that are older than 30 days or have at least 1000 retained logs that
  are as recent or more recent (log ids being distinct, as the store's primary key
  makes them). The \<^verbatim>\<open>settings\<close> partition is unchanged, and no key leaves the fallback
  store or the memory cache.
\<close>

theorem performMaintenance_frame:
  "fst ` set (localStorage st) \<subseteq> fst ` set (localStorage (snd (performMaintenance e st))) \<and>
   fst ` set (cache st) \<subseteq> fst ` set (cache (snd (performMaintenance e st))) \<and>
   (case db st of
      None \<Rightarrow> db (snd (performMaintenance e st)) = None
    | Some d \<Rightarrow>
        (\<exists>d'. db (snd (performMaintenance e st)) = Some d' \<and>
           (\<forall>x\<in>set (urls d). \<exists>y\<in>set (urls d'). key_of y = key_of x) \<and>
           settings d' = settings d \<and>
           cache_store d' = filter (\<lambda>x. \<not> ce_expiry x \<le> now e) (cache_store d) \<and>
           set (security d') \<subseteq> set (security d) \<and>
           (distinct (map log_id (security d)) \<longrightarrow>
              (\<forall>l\<in>set (security d). l \<notin> set (security d') \<longrightarrow>
                 log_timestamp l \<le> now e - 30 * 24 * 60 * 60 * 1000 \<or>
                 1000 \<le> length (filter (\<lambda>x. log_timestamp l \<le> log_timestamp x)
                                  (security d'))))))"
proof (cases "db st")
  case None
  have 1: "snd (clearExpiredCache e st) = st" using None by (simp add: clearExpiredCache_def)
  have 2: "snd (cleanupSecurityLogs e st) = st" using None by (simp add: cleanupSecurityLogs_def)
  have 3: "snd (removeOldLogs st) = st" using None by (simp add: removeOldLogs_def)
  have "snd (performMaintenance e st) =
          snd (resave e (fst (getAllURLs e st)) (snd (getAllURLs e st)))"
    by (simp add: performMaintenance_state optimizeStorage_state 1 2 3)
  then have "keeps st (snd (performMaintenance e st))"
    using sweep_keeps [of st e] by simp
  then show ?thesis using None by (simp add: keeps_def)
next
  case (Some d)
  let ?old = "\<lambda>x. log_timestamp x \<le> now e - 30 * 24 * 60 * 60 * 1000"
  let ?exp = "\<lambda>x. ce_expiry x \<le> now e"
  define d3 where "d3 = d\<lparr>cache_store := filter (\<lambda>x. \<not> ?exp x) (cache_store d),
                         security := filter (\<lambda>x. \<not> ?old x) (security d)\<rparr>"
  define st3 where "st3 = st\<lparr>db := Some d3\<rparr>"
  have 1: "snd (clearExpiredCache e st) =
             st\<lparr>db := Some (d\<lparr>cache_store := filter (\<lambda>x. \<not> ?exp x) (cache_store d)\<rparr>)\<rparr>"
    using Some by (simp add: clearExpiredCache_def Let_def)
  have 2: "snd (cleanupSecurityLogs e (snd (clearExpiredCache e st))) = st3"
    unfolding 1 by (simp add: cleanupSecurityLogs_def Let_def st3_def d3_def)
  have 3: "snd (clearExpiredCache e st3) = st3"
    by (simp add: clearExpiredCache_def Let_def st3_def d3_def)
  have db3: "db st3 = Some d3" by (simp add: st3_def)
  from removeOldLogs_db [OF db3] obtain S where
    r: "snd (removeOldLogs st3) = st3\<lparr>db := Some (d3\<lparr>security := S\<rparr>)\<rparr>"
    and sub: "set S \<subseteq> set (security d3)"
    and cap: "distinct (map log_id (security d3)) \<longrightarrow>
              (\<forall>l\<in>set (security d3). l \<notin> set S \<longrightarrow>
                 1000 \<le> length (filter (\<lambda>x. log_timestamp l \<le> log_timestamp x) S))"
    by blast
  define st4 where "st4 = st3\<lparr>db := Some (d3\<lparr>security := S\<rparr>)\<rparr>"
  have fin: "snd (performMaintenance e st) =
          snd (resave e (fst (getAllURLs e st4)) (snd (getAllURLs e st4)))"
    by (simp add: performMaintenance_state optimizeStorage_state 2 3 r st4_def)
  have "keeps st4 (snd (performMaintenance e st))"
    unfolding fin by (rule sweep_keeps)
  then obtain d' where d': "db (snd (performMaintenance e st)) = Some d'"
    and k: "\<forall>x\<in>set (urls d). \<exists>y\<in>set (urls d'). key_of y = key_of x"
    and sec: "security d' = S" and set: "settings d' = settings d"
    and cs: "cache_store d' = filter (\<lambda>x. \<not> ?exp x) (cache_store d)"
    and ls: "fst ` set (localStorage st) \<subseteq> fst ` set (localStorage (snd (performMaintenance e st)))"
    and mc: "fst ` set (cache st) \<subseteq> fst ` set (cache (snd (performMaintenance e st)))"
    by (auto simp: keeps_def st4_def st3_def d3_def)
  have s3: "security d3 = filter (\<lambda>x. \<not> ?old x) (security d)" by (simp add: d3_def)
  have subS: "set S \<subseteq> set (security d)" using sub s3 by auto
  have over: "?old l \<or> 1000 \<le> length (filter (\<lambda>x. log_timestamp l \<le> log_timestamp x) S)"
    if dist: "distinct (map log_id (security d))" and l: "l \<in> set (security d)" "l \<notin> set S" for l
  proof (cases "?old l")
    case True
    then show ?thesis by simp
  next
    case False
    then have "l \<in> set (security d3)" using l(1) s3 by simp
    moreover have "distinct (map log_id (security d3))"
      unfolding s3 using dist by (rule distinct_map_filter)
    ultimately show ?thesis using cap l(2) by blast
  qed
  show ?thesis
    using Some d' k sec set cs ls mc subS over by auto
qed

theorem performMaintenance_frame_witness:
  "\<exists>d'. db (snd (performMaintenance day40 busy_store)) = Some d' \<and>
      (\<exists>y\<in>set (urls d'). key_of y = Some (JNum 1)) \<and>
      settings d' = settings busy_db \<and>
      cache_store d' = [\<lparr>ce_key = ''b'', ce_data = JNum 2, ce_timestamp = 3456000000,
                          ce_expiry = 3542400000\<rparr>]"
proof -
  have b: "db busy_store = Some busy_db" by (simp add: busy_store_def)
  have r: "record_v0 \<in> set (urls busy_db)" by (simp add: busy_db_def)
  have k: "key_of record_v0 = Some (JNum 1)" by (simp add: key_of_def record_v0_def)
  have c: "filter (\<lambda>x. \<not> ce_expiry x \<le> now day40) (cache_store busy_db) =
             [\<lparr>ce_key = ''b'', ce_data = JNum 2, ce_timestamp = 3456000000,
               ce_expiry = 3542400000\<rparr>]"
    by (simp add: busy_db_def day40_def quiet_def)
  from performMaintenance_frame [of busy_store day40] b obtain d' where
    d: "db (snd (performMaintenance day40 busy_store)) = Some d'"
    and u: "\<forall>x\<in>set (urls busy_db). \<exists>y\<in>set (urls d'). key_of y = key_of x"
    and s: "settings d' = settings busy_db"
    and e: "cache_store d' = filter (\<lambda>x. \<not> ce_expiry x \<le> now day40) (cache_store busy_db)"
    by auto
  from u r k have "\<exists>y\<in>set (urls d'). key_of y = Some (JNum 1)" by metis
  with d s e c show ?thesis by simp
qed

section \<open>Properties of the migration\<close>















































section \<open>Write, then read\<close>

lemma key_of_stored:
  assumes "plain_record r" "get_prop r ''id'' = Inr (Some i)"
  shows "key_of r = Some i" "key_of (compressData r) = Some i"
  using assms
  by (auto simp: plain_record_fields get_prop_def key_of_def compressData_plain
      simp del: stringify.simps)

lemma saveURL_db_urls:
  assumes "saveURL e st r = (True, st')" "db st = Some d" "plain_record r"
    "get_prop r ''id'' = Inr (Some i)"
  shows "db st' = Some (d\<lparr>urls := filter (\<lambda>x. key_of x \<noteq> Some i) (urls d) @
                    [if compressionEnabled st then compressData r else r]\<rparr>)"
  using assms key_of_stored [OF assms(3,4)]
  by (auto simp: saveURL_def Let_def backupToLocalStorage_def dbOperation_urls_put_def
      urls_put_def split: sum.splits option.splits if_splits)

lemma saveURL_fallback:
  assumes "saveURL e st r = (True, st')" "db st = None" "get_prop r ''id'' = Inr (Some i)"
  shows "db st' = None"
    and "localStorage st' =
           (if ls_fault e (''urls_'' @ to_str i) then localStorage st
            else AList.update (''urls_'' @ to_str i)
                   (Text (if compressionEnabled st then compressData r else r)) (localStorage st))"
  using assms
  by (auto simp: saveURL_def Let_def backupToLocalStorage_def template_def
      split: sum.splits option.splits if_splits)









lemma set_update_subset: "set (AList.update k v al) \<subseteq> insert (k, v) (set al)"
  by (induction al) auto

lemma saveURL_consistent:
  assumes "saveURL e st r = (True, st')" "db st = None" "plain_record r"
    "get_prop r ''id'' = Inr (Some i)" "fallback_consistent (localStorage st)"
  shows "fallback_consistent (localStorage st')"
proof (cases "ls_fault e (''urls_'' @ to_str i)")
  case True
  then show ?thesis using saveURL_fallback(2) [OF assms(1,2,4)] assms(5) by simp
next
  case False
  let ?c = "if compressionEnabled st then compressData r else r"
  have k: "key_of ?c = Some i" using key_of_stored [OF assms(3,4)] by simp
  have ls: "localStorage st' = AList.update (''urls_'' @ to_str i) (Text ?c) (localStorage st)"
    using False saveURL_fallback(2) [OF assms(1,2,4)] by simp
  have "set (AList.update (''urls_'' @ to_str i) (Text ?c) (localStorage st)) \<subseteq>
          insert (''urls_'' @ to_str i, Text ?c) (set (localStorage st))"
    by (rule set_update_subset)
  then show ?thesis
    unfolding ls using assms(5) k
    by (auto simp: fallback_consistent_def list_all_iff distinct_update template_def
        split: stored.splits)
qed






text \<open>
  Saving a URL record keeps every record under its own id, so the stores reached from an
  empty one by saving URL records are the ones the theorem speaks of.
\<close>

lemma well_keyed_saveURL:
  assumes "well_keyed st" "plain_record r" "get_prop r ''id'' = Inr (Some i)"
  shows "well_keyed (snd (saveURL e st r))"
proof (cases "fst (saveURL e st r)")
  case False
  then have "snd (saveURL e st r) = st"
    using assms(3)
    by (auto simp: saveURL_def Let_def split: sum.splits)
  then show ?thesis using assms(1) by simp
next
  case True
  then have s: "saveURL e st r = (True, snd (saveURL e st r))"
    by (cases "saveURL e st r") simp
  show ?thesis
  proof (cases "db st")
    case None
    then show ?thesis
      using saveURL_fallback(1) [OF s None assms(3)] saveURL_consistent [OF s None assms(2,3)]
        assms(1)
      by (simp add: well_keyed_def)
  next
    case (Some d)
    then show ?thesis
      using saveURL_db_urls [OF s Some assms(2,3)] assms(1) key_of_stored [OF assms(2,3)]
      by (auto simp: well_keyed_def list_all_iff)
  qed
qed

end
